theory Spec2Isabelle
  imports Main "HOL-Library.Sublist"
begin

section \<open>Text as the engine sees it\<close>

text \<open>
  The engine of \<^verbatim>\<open>streaming-engine.ts\<close> works on JavaScript strings that it obtains
  from a UTF-8 \<^verbatim>\<open>TextDecoder\<close>. A text is modelled by its UTF-8 encoding, a list of
  \<^typ>\<open>char\<close> (one \<^typ>\<open>char\<close> is one byte), so that \<^verbatim>\<open>TextEncoder.encode\<close> is the
  identity and the decoder is the only place where bytes and text differ: it holds an
  unfinished multi-byte sequence back and replaces malformed input by U+FFFD.
  Searching for an ASCII substring (\<^verbatim>\<open>split\<close>, \<^verbatim>\<open>startsWith\<close>) gives the same result
  on the encoding as on the string, because UTF-8 is self-synchronising.
\<close>

subsection \<open>\<^verbatim>\<open>String.prototype.trim\<close>\<close>

text \<open>
  The code points that ECMAScript's \<^verbatim>\<open>trim\<close> and the regular expression class
  \<^verbatim>\<open>\s\<close> remove (WhiteSpace and LineTerminator), each as its UTF-8 byte sequence:
  TAB, LF, VT, FF, CR, SP, U+00A0, U+1680, U+2000 to U+200A, U+2028, U+2029, U+202F,
  U+205F, U+3000, U+FEFF.
\<close>

definition whiteSpace :: "string list" where
  "whiteSpace =
     [[CHR 0x09], [CHR 0x0A], [CHR 0x0B], [CHR 0x0C], [CHR 0x0D], [CHR 0x20],
      [CHR 0xC2, CHR 0xA0],
      [CHR 0xE1, CHR 0x9A, CHR 0x80],
      [CHR 0xE2, CHR 0x80, CHR 0x80], [CHR 0xE2, CHR 0x80, CHR 0x81],
      [CHR 0xE2, CHR 0x80, CHR 0x82], [CHR 0xE2, CHR 0x80, CHR 0x83],
      [CHR 0xE2, CHR 0x80, CHR 0x84], [CHR 0xE2, CHR 0x80, CHR 0x85],
      [CHR 0xE2, CHR 0x80, CHR 0x86], [CHR 0xE2, CHR 0x80, CHR 0x87],
      [CHR 0xE2, CHR 0x80, CHR 0x88], [CHR 0xE2, CHR 0x80, CHR 0x89],
      [CHR 0xE2, CHR 0x80, CHR 0x8A],
      [CHR 0xE2, CHR 0x80, CHR 0xA8], [CHR 0xE2, CHR 0x80, CHR 0xA9],
      [CHR 0xE2, CHR 0x80, CHR 0xAF],
      [CHR 0xE2, CHR 0x81, CHR 0x9F],
      [CHR 0xE3, CHR 0x80, CHR 0x80],
      [CHR 0xEF, CHR 0xBB, CHR 0xBF]]"

text \<open>
  \<open>stripLeading ws s\<close> removes from the front of \<open>s\<close>, repeatedly, whichever sequence
  of \<open>ws\<close> stands there. Every sequence of \<^const>\<open>whiteSpace\<close> has at least one byte;
  the first byte is taken by the pattern and the others by \<^const>\<open>drop\<close>.
\<close>

fun stripLeading :: "string list \<Rightarrow> string \<Rightarrow> string" where
  "stripLeading ws [] = []"
| "stripLeading ws (c # cs) =
     (case List.find (\<lambda>w. prefix w (c # cs)) ws of
        None \<Rightarrow> c # cs
      | Some w \<Rightarrow> stripLeading ws (drop (length w - 1) cs))"

definition trimStart :: "string \<Rightarrow> string" where
  "trimStart s = stripLeading whiteSpace s"

definition trimEnd :: "string \<Rightarrow> string" where
  "trimEnd s = rev (stripLeading (map rev whiteSpace) (rev s))"

definition trim :: "string \<Rightarrow> string" where
  "trim s = trimEnd (trimStart s)"

subsection \<open>\<^verbatim>\<open>String.prototype.split\<close> and \<^verbatim>\<open>startsWith\<close>\<close>

text \<open>
  \<^verbatim>\<open>s.split(sep)\<close> with a string separator. A non-empty separator \<open>d # ds\<close> is searched
  from the left, matches do not overlap, and the piece after the last match is the last
  element (\<^verbatim>\<open>"".split("x")\<close> is \<^verbatim>\<open>[""]\<close>). The empty separator cuts the string into its
  units, and \<^verbatim>\<open>"".split("")\<close> is the empty array; the units of the model are bytes,
  where JavaScript cuts into UTF-16 code units, so for the empty separator the model
  is exact on ASCII text only.
\<close>

fun splitOn :: "char \<Rightarrow> string \<Rightarrow> string \<Rightarrow> string list" where
  "splitOn d ds [] = [[]]"
| "splitOn d ds (c # cs) =
     (if prefix (d # ds) (c # cs) then [] # splitOn d ds (drop (length ds) cs)
      else (case splitOn d ds cs of
              [] \<Rightarrow> [[c]]
            | piece # pieces \<Rightarrow> (c # piece) # pieces))"

definition split :: "string \<Rightarrow> string \<Rightarrow> string list" where
  "split s sep = (case sep of [] \<Rightarrow> map (\<lambda>c. [c]) s | d # ds \<Rightarrow> splitOn d ds s)"

definition startsWith :: "string \<Rightarrow> string \<Rightarrow> bool" where
  "startsWith s p = prefix p s"

text \<open>\<^verbatim>\<open>events.pop()\<close>: the array without its last element, and that element if there is one.\<close>

definition pop :: "string list \<Rightarrow> string list \<times> string option" where
  "pop xs = (if xs = [] then ([], None) else (butlast xs, Some (last xs)))"

section \<open>The debug gate\<close>

text \<open>
  \<^verbatim>\<open>debug?: boolean | DebugOptions\<close> of \<^verbatim>\<open>streaming-types.ts\<close>; every field of
  \<^verbatim>\<open>DebugOptions\<close> is an optional boolean, and a category is a key of it.
\<close>

record DebugOptions =
  all :: "bool option"
  plugin :: "bool option"
  sse :: "bool option"






section \<open>The UTF-8 decoder in streaming mode\<close>

text \<open>
  \<^verbatim>\<open>decoder.decode(value, { stream: true })\<close> feeds the bytes of the chunk, one at a
  time, to the UTF-8 decoder of the Encoding standard and keeps the decoder's state for
  the next call. The state is the sequence read so far, the number of continuation bytes
  still expected, the range allowed for the next one, and whether the first code point
  has been seen (a byte order mark in first place is dropped). The engine never makes the
  final call without \<^verbatim>\<open>stream\<close>, so an unfinished sequence at the end of the input is
  dropped.
\<close>

record decoder =
  pending :: string
  needed :: nat
  lower :: nat
  upper :: nat
  bomSeen :: bool

definition newDecoder :: decoder where
  "newDecoder = \<lparr>pending = [], needed = 0, lower = 0x80, upper = 0xBF, bomSeen = False\<rparr>"

definition replacement :: string where
  "replacement = [CHR 0xEF, CHR 0xBF, CHR 0xBD]"

definition byteOrderMark :: string where
  "byteOrderMark = [CHR 0xEF, CHR 0xBB, CHR 0xBF]"

definition emit :: "decoder \<Rightarrow> string \<Rightarrow> decoder \<times> string" where
  "emit d cp =
     (d\<lparr>pending := [], needed := 0, lower := 0x80, upper := 0xBF, bomSeen := True\<rparr>,
      if \<not> bomSeen d \<and> cp = byteOrderMark then [] else cp)"

definition leadByte :: "decoder \<Rightarrow> char \<Rightarrow> decoder \<times> string" where
  "leadByte d b =
     (let n = (of_char b :: nat) in
      if n \<le> 0x7F then emit d [b]
      else if 0xC2 \<le> n \<and> n \<le> 0xDF then (d\<lparr>pending := [b], needed := 1\<rparr>, [])
      else if 0xE0 \<le> n \<and> n \<le> 0xEF then
        (d\<lparr>pending := [b], needed := 2,
           lower := (if n = 0xE0 then 0xA0 else 0x80),
           upper := (if n = 0xED then 0x9F else 0xBF)\<rparr>, [])
      else if 0xF0 \<le> n \<and> n \<le> 0xF4 then
        (d\<lparr>pending := [b], needed := 3,
           lower := (if n = 0xF0 then 0x90 else 0x80),
           upper := (if n = 0xF4 then 0x8F else 0xBF)\<rparr>, [])
      else emit d replacement)"

definition decodeByte :: "decoder \<Rightarrow> char \<Rightarrow> decoder \<times> string" where
  "decodeByte d b =
     (if needed d = 0 then leadByte d b
      else if (of_char b :: nat) < lower d \<or> upper d < (of_char b :: nat) then
        (case emit d replacement of (d1, r) \<Rightarrow>
           (case leadByte d1 b of (d2, t) \<Rightarrow> (d2, r @ t)))
      else if needed d = 1 then emit d (pending d @ [b])
      else (d\<lparr>pending := pending d @ [b], needed := needed d - 1,
              lower := 0x80, upper := 0xBF\<rparr>, []))"

fun decode :: "decoder \<Rightarrow> string \<Rightarrow> decoder \<times> string" where
  "decode d [] = (d, [])"
| "decode d (b # bs) =
     (case decodeByte d b of (d1, t) \<Rightarrow>
        (case decode d1 bs of (d2, ts) \<Rightarrow> (d2, t @ ts)))"

section \<open>Messages, callbacks and the outbound stream\<close>

datatype role = System | User | Assistant

record message =
  role :: role
  content :: string

text \<open>A thrown value, known by its message.\<close>

datatype error = Error string

text \<open>
  The handlers of \<^verbatim>\<open>SSEEngineHandlers\<close> are the caller's code. The model records each
  dispatch, in order, in a list; a handler the caller left out is the handler that does
  nothing, and a handler returns normally.
\<close>

datatype callback =
    OnSystemMessage message
  | OnUserMessage message
  | OnPartial message
  | OnDone message
  | OnError error message

text \<open>
  The controller of the outbound \<^verbatim>\<open>ReadableStream\<close>: the chunks enqueued and not yet
  read, and the state. \<^verbatim>\<open>enqueue\<close> and \<^verbatim>\<open>close\<close> throw a \<^verbatim>\<open>TypeError\<close> once the stream
  is closed or errored; \<^verbatim>\<open>error\<close> empties the queue and does nothing on a stream that
  is not readable. \<open>Closed\<close> holds from the call of \<^verbatim>\<open>close\<close>; the consumer still
  reads the chunks queued before it. The consumer's \<^verbatim>\<open>cancel\<close> closes a readable
  stream and drops its queue.
\<close>

datatype streamState = Readable | Closed | Errored error

record controller =
  queue :: "string list"
  streamState :: streamState

definition newStream :: controller where
  "newStream = \<lparr>queue = [], streamState = Readable\<rparr>"

definition controller_enqueue :: "controller \<Rightarrow> string \<Rightarrow> error + controller" where
  "controller_enqueue c chunk =
     (if streamState c = Readable then Inr (c\<lparr>queue := queue c @ [chunk]\<rparr>)
      else Inl (Error ''TypeError: Invalid state: Controller is already closed''))"

definition controller_close :: "controller \<Rightarrow> error + controller" where
  "controller_close c =
     (if streamState c = Readable then Inr (c\<lparr>streamState := Closed\<rparr>)
      else Inl (Error ''TypeError: Invalid state: Controller is already closed''))"

definition controller_error :: "controller \<Rightarrow> error \<Rightarrow> controller" where
  "controller_error c e =
     (if streamState c = Readable then c\<lparr>queue := [], streamState := Errored e\<rparr> else c)"

definition cancel :: "controller \<Rightarrow> controller" where
  "cancel c =
     (if streamState c = Readable then c\<lparr>queue := [], streamState := Closed\<rparr> else c)"

text \<open>What the consumer's next \<^verbatim>\<open>read()\<close> of the outbound stream gives.\<close>

datatype readResult = Value string | EndOfInput | Rejected error | Waiting

definition read :: "controller \<Rightarrow> readResult" where
  "read c =
     (case queue c of
        chunk # _ \<Rightarrow> Value chunk
      | [] \<Rightarrow> (case streamState c of
                 Readable \<Rightarrow> Waiting
               | Closed \<Rightarrow> EndOfInput
               | Errored e \<Rightarrow> Rejected e))"

section \<open>The plugin\<close>

text \<open>
  The upstream reader returned by \<^verbatim>\<open>prepareRequest\<close>: the chunks its \<^verbatim>\<open>read()\<close> calls
  deliver, and how the call after the last chunk ends (\<^verbatim>\<open>done\<close>, or a rejection).
\<close>

datatype ending = Done | Fails error

record reader =
  chunks :: "string list"
  ending :: ending

text \<open>
  \<^verbatim>\<open>ProviderPlugin\<close>. The declaration is not among the sources; the engine uses
  \<^verbatim>\<open>plugin.delimiter ?? "\n\n"\<close>, the awaited \<^verbatim>\<open>prepareRequest\<close> (a reader, or a
  rejection) and \<^verbatim>\<open>parseServerSentEvent\<close>, a line to \<^verbatim>\<open>string | null\<close>, which, as any
  call, may also throw.
\<close>

record plugin =
  delimiter :: "string option"
  prepareRequest :: "error + reader"
  parseServerSentEvent :: "string \<Rightarrow> error + string option"

text \<open>
  The variables of one call that the frame loop changes: \<^verbatim>\<open>fullResponse\<close>, the
  controller, and the callbacks dispatched so far.
\<close>

record engine =
  fullResponse :: string
  controller :: controller
  calls :: "callback list"

section \<open>The stream engine\<close>

subsection \<open>The lines of a frame\<close>

datatype lineLoop = Sentinel | Collected string | Raised error

text \<open>
  \<^verbatim>\<open>eventText += parsed\<close> under \<^verbatim>\<open>if (parsed)\<close>: \<^verbatim>\<open>null\<close> and the empty string are
  falsy.
\<close>

definition addParsed :: "string \<Rightarrow> string option \<Rightarrow> string" where
  "addParsed eventText parsed =
     (case parsed of
        None \<Rightarrow> eventText
      | Some t \<Rightarrow> (if t \<noteq> [] then eventText @ t else eventText))"

text \<open>
  The loop \<^verbatim>\<open>for (const sseLine of sseLines)\<close>, lines 110 to 128 of
  \<^verbatim>\<open>streaming-engine.ts\<close>: the sentinel leaves the loop at once, with the text
  collected from the lines before it left behind.
\<close>

fun parseLines :: "plugin \<Rightarrow> string \<Rightarrow> string list \<Rightarrow> lineLoop" where
  "parseLines p eventText [] = Collected eventText"
| "parseLines p eventText (sseLine # rest) =
     (case parseServerSentEvent p sseLine of
        Inl e \<Rightarrow> Raised e
      | Inr parsed \<Rightarrow>
          (if parsed = Some ''[DONE]'' then Sentinel
           else parseLines p (addParsed eventText parsed) rest))"

text \<open>
  The loop \<^verbatim>\<open>for (const line of lines)\<close> of the leftover, lines 155 to 174: a line that
  starts with a colon is skipped by \<^verbatim>\<open>continue\<close>; nothing else is.
\<close>

fun leftoverLines :: "plugin \<Rightarrow> string \<Rightarrow> string list \<Rightarrow> lineLoop" where
  "leftoverLines p leftoverText [] = Collected leftoverText"
| "leftoverLines p leftoverText (line # rest) =
     (if startsWith line '':'' then leftoverLines p leftoverText rest
      else (case parseServerSentEvent p line of
              Inl e \<Rightarrow> Raised e
            | Inr parsed \<Rightarrow>
                (if parsed = Some ''[DONE]'' then Sentinel
                 else leftoverLines p (addParsed leftoverText parsed) rest)))"

subsection \<open>Steps of the body of \<^verbatim>\<open>start\<close>\<close>

text \<open>
  A step goes on to the next statement, or executes \<^verbatim>\<open>return\<close>, or throws into the
  \<^verbatim>\<open>catch\<close> of line 201.
\<close>

datatype outcome = Continue engine | Return engine | Throw error engine

text \<open>\<^verbatim>\<open>handlers.onDone\<close> with the aggregate, then \<^verbatim>\<open>controller.close()\<close>.\<close>

definition finish :: "engine \<Rightarrow> outcome" where
  "finish st =
     (let st1 = st\<lparr>calls := calls st @ [OnDone \<lparr>role = Assistant, content = fullResponse st\<rparr>]\<rparr>
      in case controller_close (controller st1) of
           Inl e \<Rightarrow> Throw e st1
         | Inr c \<Rightarrow> Return (st1\<lparr>controller := c\<rparr>))"

text \<open>
  \<^verbatim>\<open>if (eventText) { fullResponse += eventText; controller.enqueue(...);
  handlers.onPartial(...) }\<close>, lines 130 to 143 and 176 to 188.
\<close>

definition emitText :: "engine \<Rightarrow> string \<Rightarrow> outcome" where
  "emitText st eventText =
     (if eventText \<noteq> [] then
        (let st1 = st\<lparr>fullResponse := fullResponse st @ eventText\<rparr>
         in case controller_enqueue (controller st1) eventText of
              Inl e \<Rightarrow> Throw e st1
            | Inr c \<Rightarrow>
                Continue (st1\<lparr>controller := c,
                  calls := calls st1 @ [OnPartial \<lparr>role = Assistant, content = eventText\<rparr>]\<rparr>))
      else Continue st)"

subsection \<open>The error-payload sniffer of the later revision\<close>

text \<open>
  \<^verbatim>\<open>.replace(/^data:\s*/, "")\<close>: a leading \<^verbatim>\<open>data:\<close> goes, with the white space
  after it.
\<close>

definition stripDataPrefix :: "string \<Rightarrow> string" where
  "stripDataPrefix s = (if prefix ''data:'' s then trimStart (drop 5 s) else s)"

text \<open>
  \<^verbatim>\<open>handlePossibleErrorJSON\<close>, lines 18 to 42 of the revision with the sniffer
  (\<^verbatim>\<open>unnamed/part_001\<close>). \<^verbatim>\<open>JSON.parse\<close> is the parameter \<open>json\<close>: \<open>json t\<close> is
  \<open>Some m\<close> when \<open>t\<close> parses and the value has a truthy \<^verbatim>\<open>error\<close> with a truthy
  \<^verbatim>\<open>message\<close> \<open>m\<close>, and \<open>None\<close> when it does not parse or has no such field. The
  message passed to \<^verbatim>\<open>onError\<close> has the content \<^verbatim>\<open>""\<close>, as line 33 writes it.
\<close>

definition handlePossibleErrorJSON ::
  "(string \<Rightarrow> string option) \<Rightarrow> string \<Rightarrow> engine \<Rightarrow> bool \<times> engine" where
  "handlePossibleErrorJSON json rawText st =
     (let trimmedText = stripDataPrefix (trim rawText) in
      if \<not> startsWith trimmedText ''{'' then (False, st)
      else (case json trimmedText of
              None \<Rightarrow> (False, st)
            | Some errorMsg \<Rightarrow>
                (True,
                 st\<lparr>calls := calls st @
                      [OnError (Error errorMsg) \<lparr>role = Assistant, content = []\<rparr>],
                    controller := controller_error (controller st) (Error errorMsg)\<rparr>)))"

text \<open>
  The repository holds two revisions of \<^verbatim>\<open>createSSEStream\<close>, which differ in the two
  calls of the sniffer only: \<^verbatim>\<open>src/streaming-engine.ts\<close> has none (nor has
  \<^verbatim>\<open>part_000\<close>, the same code with plain \<^verbatim>\<open>if (debug)\<close> tests), \<^verbatim>\<open>part_001\<close> calls it
  on each trimmed frame and on the leftover. The model takes the JSON reader as an
  optional argument: \<open>None\<close> is \<^verbatim>\<open>src/streaming-engine.ts\<close>, \<open>Some json\<close> is
  \<^verbatim>\<open>part_001\<close>.
\<close>

definition sniff :: "(string \<Rightarrow> string option) option \<Rightarrow> string \<Rightarrow> engine \<Rightarrow> bool \<times> engine" where
  "sniff js text st =
     (case js of None \<Rightarrow> (False, st) | Some json \<Rightarrow> handlePossibleErrorJSON json text st)"

subsection \<open>Frames\<close>

text \<open>
  Lines 106 and 107: the lines of a trimmed frame, each trimmed, without the empty ones
  and the comments.
\<close>

definition sseLines :: "string \<Rightarrow> string list" where
  "sseLines trimmed =
     (let lines = map trim (split trimmed ''\<newline>'')
      in filter (\<lambda>ln. ln \<noteq> [] \<and> \<not> startsWith ln '':'') lines)"

text \<open>The body of \<^verbatim>\<open>for (const event of events)\<close>, lines 102 to 144.\<close>

definition processEvent ::
  "(string \<Rightarrow> string option) option \<Rightarrow> plugin \<Rightarrow> engine \<Rightarrow> string \<Rightarrow> outcome" where
  "processEvent js p st event =
     (let trimmed = trim event in
      if trimmed = [] then Continue st
      else (case sniff js trimmed st of
              (True, st') \<Rightarrow> Return st'
            | (False, st') \<Rightarrow>
                (case parseLines p [] (sseLines trimmed) of
                   Sentinel \<Rightarrow> finish st'
                 | Raised e \<Rightarrow> Throw e st'
                 | Collected eventText \<Rightarrow> emitText st' eventText)))"

fun processEvents ::
  "(string \<Rightarrow> string option) option \<Rightarrow> plugin \<Rightarrow> engine \<Rightarrow> string list \<Rightarrow> outcome" where
  "processEvents js p st [] = Continue st"
| "processEvents js p st (event # rest) =
     (case processEvent js p st event of
        Continue st' \<Rightarrow> processEvents js p st' rest
      | Return st' \<Rightarrow> Return st'
      | Throw e st' \<Rightarrow> Throw e st')"

subsection \<open>The read loop\<close>

text \<open>
  \<^verbatim>\<open>while (true)\<close>, lines 82 to 145, over the chunks the reader delivers. The loop is
  left by \<^verbatim>\<open>break\<close> when the reader has no chunk left (with the buffer as it stands), by
  a \<^verbatim>\<open>return\<close> inside a frame, or by a throw.
\<close>

datatype loop = Exited string engine | Returned engine | Threw error engine

definition delimiterOf :: "plugin \<Rightarrow> string" where
  "delimiterOf p = (case delimiter p of None \<Rightarrow> ''\<newline>\<newline>'' | Some d \<Rightarrow> d)"

fun readLoop ::
  "(string \<Rightarrow> string option) option \<Rightarrow> plugin \<Rightarrow> string \<Rightarrow> decoder \<Rightarrow> engine \<Rightarrow>
     string list \<Rightarrow> loop" where
  "readLoop js p buffer dec st [] = Exited buffer st"
| "readLoop js p buffer dec st (value # rest) =
     (case decode dec value of (dec', chunk) \<Rightarrow>
        (case pop (split (buffer @ chunk) (delimiterOf p)) of (events, popped) \<Rightarrow>
           (case processEvents js p st events of
              Continue st' \<Rightarrow>
                readLoop js p (case popped of None \<Rightarrow> [] | Some b \<Rightarrow> b) dec' st' rest
            | Return st' \<Rightarrow> Returned st'
            | Throw e st' \<Rightarrow> Threw e st')))"

subsection \<open>The leftover and the end\<close>

text \<open>Lines 147 to 189; \<open>Continue\<close> falls through to the final \<^verbatim>\<open>onDone\<close>.\<close>

definition handleLeftover ::
  "(string \<Rightarrow> string option) option \<Rightarrow> plugin \<Rightarrow> string \<Rightarrow> engine \<Rightarrow> outcome" where
  "handleLeftover js p buffer st =
     (let leftover = trim buffer in
      if leftover \<noteq> [] then
        (case sniff js leftover st of
           (True, st') \<Rightarrow> Return st'
         | (False, st') \<Rightarrow>
             (let lines = map trim (split leftover ''\<newline>'')
              in case leftoverLines p [] lines of
                   Sentinel \<Rightarrow> finish st'
                 | Raised e \<Rightarrow> Throw e st'
                 | Collected leftoverText \<Rightarrow> emitText st' leftoverText))
      else Continue st)"

text \<open>The \<^verbatim>\<open>catch\<close> block, lines 201 to 212.\<close>

definition catch :: "error \<Rightarrow> engine \<Rightarrow> engine" where
  "catch e st =
     st\<lparr>controller := controller_error (controller st) e,
        calls := calls st @ [OnError e \<lparr>role = Assistant, content = fullResponse st\<rparr>]\<rparr>"

definition tryBlock ::
  "(string \<Rightarrow> string option) option \<Rightarrow> plugin \<Rightarrow> reader \<Rightarrow> engine \<Rightarrow> outcome" where
  "tryBlock js p rd st =
     (case readLoop js p [] newDecoder st (chunks rd) of
        Returned st' \<Rightarrow> Return st'
      | Threw e st' \<Rightarrow> Throw e st'
      | Exited buffer st' \<Rightarrow>
          (case ending rd of
             Fails e \<Rightarrow> Throw e st'
           | Done \<Rightarrow>
               (case handleLeftover js p buffer st' of
                  Continue st'' \<Rightarrow> finish st''
                | Return st'' \<Rightarrow> Return st''
                | Throw e st'' \<Rightarrow> Throw e st'')))"

definition start ::
  "(string \<Rightarrow> string option) option \<Rightarrow> plugin \<Rightarrow> reader \<Rightarrow> engine \<Rightarrow> engine" where
  "start js p rd st =
     (case tryBlock js p rd st of
        Continue st' \<Rightarrow> st'
      | Return st' \<Rightarrow> st'
      | Throw e st' \<Rightarrow> catch e st')"

subsection \<open>\<^verbatim>\<open>createSSEStream\<close>\<close>

text \<open>The stream returned when the preparation fails: its \<^verbatim>\<open>start\<close> closes it.\<close>

definition closedStream :: controller where
  "closedStream =
     (case controller_close newStream of
        Inr c \<Rightarrow> c
      | Inl e \<Rightarrow> controller_error newStream e)"

text \<open>
  Lines 59 to 64: \<^verbatim>\<open>onSystemMessage\<close> when a non-empty system message was given, then
  \<^verbatim>\<open>onUserMessage\<close>.
\<close>

definition announce :: "string option \<Rightarrow> string \<Rightarrow> callback list" where
  "announce systemMessage userMessage =
     (case systemMessage of
        None \<Rightarrow> []
      | Some s \<Rightarrow> (if s \<noteq> [] then [OnSystemMessage \<lparr>role = System, content = s\<rparr>] else []))
     @ [OnUserMessage \<lparr>role = User, content = userMessage\<rparr>]"

text \<open>
  The result is the state at the end of the call and of \<^verbatim>\<open>start\<close>: the outbound stream
  and the callbacks dispatched (and the final aggregate). The debug configuration,
  the options and the handlers have no part in the control flow and are left out.
\<close>

definition createSSEStream ::
  "(string \<Rightarrow> string option) option \<Rightarrow> plugin \<Rightarrow> string option \<Rightarrow> string \<Rightarrow> engine" where
  "createSSEStream js p systemMessage userMessage =
     (case prepareRequest p of
        Inl e \<Rightarrow>
          \<lparr>fullResponse = [], controller = closedStream,
           calls = [OnError e \<lparr>role = Assistant, content = []\<rparr>]\<rparr>
      | Inr rd \<Rightarrow>
          start js p rd
            \<lparr>fullResponse = [], controller = newStream,
             calls = announce systemMessage userMessage\<rparr>)"

text \<open>
  In \<^const>\<open>createSSEStream\<close> nothing but the engine touches the outbound stream. The
  second test of the suite does otherwise: it takes the stream the call returns and
  cancels it at once. At that moment \<^verbatim>\<open>start\<close> has run up to its first
  \<^verbatim>\<open>await reader.read()\<close>, so the rest of \<^verbatim>\<open>start\<close> runs on the cancelled stream. When
  the preparation fails the stream is closed already and the cancel changes nothing.
\<close>

definition createSSEStream_cancelled ::
  "(string \<Rightarrow> string option) option \<Rightarrow> plugin \<Rightarrow> string option \<Rightarrow> string \<Rightarrow> engine" where
  "createSSEStream_cancelled js p systemMessage userMessage =
     (case prepareRequest p of
        Inl e \<Rightarrow>
          \<lparr>fullResponse = [], controller = cancel closedStream,
           calls = [OnError e \<lparr>role = Assistant, content = []\<rparr>]\<rparr>
      | Inr rd \<Rightarrow>
          start js p rd
            \<lparr>fullResponse = [], controller = cancel newStream,
             calls = announce systemMessage userMessage\<rparr>)"

section \<open>What a run shows\<close>

text \<open>The terminal callbacks, and the contents of the \<^verbatim>\<open>onPartial\<close> calls of a trace.\<close>

fun isTerminal :: "callback \<Rightarrow> bool" where
  "isTerminal (OnDone m) = True"
| "isTerminal (OnError e m) = True"
| "isTerminal c = False"

fun partialContents :: "callback list \<Rightarrow> string list" where
  "partialContents [] = []"
| "partialContents (OnPartial m # cs) = content m # partialContents cs"
| "partialContents (c # cs) = partialContents cs"

text \<open>
  The invariant of the read loop: while the engine goes on, the outbound stream is
  readable, no terminal callback has been dispatched, and \<^verbatim>\<open>fullResponse\<close> is the
  concatenation of the partial contents. After a throw and before the \<^verbatim>\<open>catch\<close> no
  terminal callback has been dispatched. At the end the last callback is the one
  terminal callback, and an \<^verbatim>\<open>onDone\<close> carries the concatenation.
\<close>

definition running :: "engine \<Rightarrow> bool" where
  "running st \<longleftrightarrow>
     streamState (controller st) = Readable \<and> filter isTerminal (calls st) = [] \<and>
     fullResponse st = concat (partialContents (calls st))"

definition quiet :: "engine \<Rightarrow> bool" where
  "quiet st \<longleftrightarrow> filter isTerminal (calls st) = []"

definition ended :: "engine \<Rightarrow> bool" where
  "ended st \<longleftrightarrow>
     calls st \<noteq> [] \<and> filter isTerminal (butlast (calls st)) = [] \<and>
     (case last (calls st) of
        OnDone m \<Rightarrow> content m = concat (partialContents (butlast (calls st)))
      | OnError e m \<Rightarrow> True
      | _ \<Rightarrow> False)"

definition settled :: "outcome \<Rightarrow> bool" where
  "settled out =
     (case out of
        Continue st \<Rightarrow> running st
      | Return st \<Rightarrow> ended st
      | Throw e st \<Rightarrow> quiet st)"

definition settledLoop :: "loop \<Rightarrow> bool" where
  "settledLoop l =
     (case l of
        Exited b st \<Rightarrow> running st
      | Returned st \<Rightarrow> ended st
      | Threw e st \<Rightarrow> quiet st)"

text \<open>Lines 94 and 95 in one: the frames cut from a buffer, and the buffer kept.\<close>

definition framing :: "string \<Rightarrow> string \<Rightarrow> string list \<times> string" where
  "framing sep s =
     (case pop (split s sep) of
        (events, popped) \<Rightarrow> (events, case popped of None \<Rightarrow> [] | Some b \<Rightarrow> b))"

section \<open>Plugins of the test suite and of the examples\<close>

text \<open>
  \<^verbatim>\<open>MockPlugin\<close> of \<^verbatim>\<open>streaming-engine.test.ts\<close>, with the chunks its stream writes
  as argument. Its \<^verbatim>\<open>JSON.parse(payload)\<close> is modelled on the payloads of the test:
  a quoted string without escapes gives its content, and a payload that is not JSON is
  returned as it is by the \<^verbatim>\<open>catch\<close>.
\<close>

definition mockParse :: "string \<Rightarrow> error + string option" where
  "mockParse line =
     (if \<not> startsWith line ''data: '' then Inr None
      else (let payload = trim (drop 6 line) in
            if payload = ''[DONE]'' then Inr (Some ''[DONE]'')
            else if 2 \<le> length payload \<and> hd payload = CHR 0x22 \<and> last payload = CHR 0x22
            then Inr (Some (butlast (tl payload)))
            else Inr (Some payload)))"

definition mockPlugin :: "string list \<Rightarrow> plugin" where
  "mockPlugin cs =
     \<lparr>delimiter = Some ''\<newline>\<newline>'',
      prepareRequest = Inr \<lparr>chunks = cs, ending = Done\<rparr>,
      parseServerSentEvent = mockParse\<rparr>"

text \<open>\<^verbatim>\<open>ErrorPlugin\<close> of the same file: the preparation throws, there is no delimiter.\<close>

definition errorPlugin :: plugin where
  "errorPlugin =
     \<lparr>delimiter = None,
      prepareRequest = Inl (Error ''Simulated stream error''),
      parseServerSentEvent = (\<lambda>line. Inr None)\<rparr>"

text \<open>
  A plugin for a protocol of plain lines: every line is content and gets its line break
  back.
\<close>

definition echoPlugin :: "string list \<Rightarrow> plugin" where
  "echoPlugin cs =
     \<lparr>delimiter = Some ''\<newline>\<newline>'',
      prepareRequest = Inr \<lparr>chunks = cs, ending = Done\<rparr>,
      parseServerSentEvent = (\<lambda>line. Inr (Some (line @ ''\<newline>'')))\<rparr>"

text \<open>
  A reader of error payloads for the examples, standing for \<^verbatim>\<open>JSON.parse\<close> on texts of
  the shape \<^verbatim>\<open>{"error":{"message":"m"}}\<close> with a non-empty \<open>m\<close> free of quotes and
  backslashes, and finding no error in any other text.
\<close>

definition errorMessageOf :: "string \<Rightarrow> string option" where
  "errorMessageOf t =
     (let pre = ''{\"error\":{\"message\":\"''; post = ''\"}}'' in
      if prefix pre t \<and> suffix post t \<and> length pre + length post \<le> length t then
        (let m = take (length t - length pre - length post) (drop (length pre) t) in
         if m \<noteq> [] \<and> CHR 0x22 \<notin> set m \<and> CHR 0x5C \<notin> set m then Some m else None)
      else None)"

section \<open>The invariant of the engine\<close>

lemma partialContents_append:
  "partialContents (xs @ ys) = partialContents xs @ partialContents ys"
  by (induction xs rule: partialContents.induct) simp_all

lemma running_quiet: "running st \<Longrightarrow> quiet st"
  by (simp add: running_def quiet_def)

lemma finish_settled: "running st \<Longrightarrow> settled (finish st)"
  by (simp add: running_def settled_def finish_def controller_close_def ended_def Let_def)

lemma emitText_settled: "running st \<Longrightarrow> settled (emitText st t)"
  by (simp add: running_def settled_def emitText_def controller_enqueue_def
      partialContents_append Let_def)

lemma handlePossibleErrorJSON_cases:
  "running st \<Longrightarrow> handlePossibleErrorJSON json t st = (b, st') \<Longrightarrow>
     (b \<and> ended st') \<or> (\<not> b \<and> st' = st)"
  by (auto simp: handlePossibleErrorJSON_def Let_def running_def ended_def
      split: option.splits if_splits)

lemma sniff_cases:
  "running st \<Longrightarrow> sniff js t st = (b, st') \<Longrightarrow> (b \<and> ended st') \<or> (\<not> b \<and> st' = st)"
  by (cases js) (auto simp: sniff_def dest: handlePossibleErrorJSON_cases)

lemma lines_settled:
  assumes "running st"
  shows "settled (case l of Sentinel \<Rightarrow> finish st | Raised e \<Rightarrow> Throw e st
                  | Collected t \<Rightarrow> emitText st t)"
proof (cases l)
  case Sentinel
  then show ?thesis using finish_settled[OF assms] by simp
next
  case (Collected t)
  then show ?thesis using emitText_settled[OF assms] by simp
next
  case (Raised e)
  then show ?thesis using running_quiet[OF assms] by (simp add: settled_def)
qed

lemma processEvent_settled:
  assumes r: "running st"
  shows "settled (processEvent js p st ev)"
proof (cases "trim ev = []")
  case True
  then show ?thesis using r by (simp add: processEvent_def settled_def)
next
  case False
  obtain b st' where s: "sniff js (trim ev) st = (b, st')"
    by (cases "sniff js (trim ev) st")
  from sniff_cases[OF r s] show ?thesis
  proof
    assume "b \<and> ended st'"
    then show ?thesis using False s by (simp add: processEvent_def settled_def)
  next
    assume "\<not> b \<and> st' = st"
    then show ?thesis using False s lines_settled[OF r, of "parseLines p [] (sseLines (trim ev))"]
      by (simp add: processEvent_def)
  qed
qed

lemma processEvents_settled: "running st \<Longrightarrow> settled (processEvents js p st evs)"
proof (induction evs arbitrary: st)
  case Nil
  then show ?case by (simp add: settled_def)
next
  case (Cons ev evs)
  from processEvent_settled[OF Cons.prems, of js p ev] Cons.IH show ?case
    by (cases "processEvent js p st ev") (simp_all add: settled_def)
qed

lemma readLoop_settled: "running st \<Longrightarrow> settledLoop (readLoop js p buf dec st cs)"
proof (induction cs arbitrary: buf dec st)
  case Nil
  then show ?case by (simp add: settledLoop_def)
next
  case (Cons c cs)
  obtain dec' chunk where d: "decode dec c = (dec', chunk)" by (cases "decode dec c")
  obtain events popped where e: "pop (split (buf @ chunk) (delimiterOf p)) = (events, popped)"
    by (cases "pop (split (buf @ chunk) (delimiterOf p))")
  from processEvents_settled[OF Cons.prems, of js p events] Cons.IH show ?case
    by (cases "processEvents js p st events") (simp_all add: d e settled_def settledLoop_def)
qed

lemma handleLeftover_settled:
  assumes r: "running st"
  shows "settled (handleLeftover js p buf st)"
proof (cases "trim buf = []")
  case True
  then show ?thesis using r by (simp add: handleLeftover_def settled_def)
next
  case False
  obtain b st' where s: "sniff js (trim buf) st = (b, st')"
    by (cases "sniff js (trim buf) st")
  from sniff_cases[OF r s] show ?thesis
  proof
    assume "b \<and> ended st'"
    then show ?thesis using False s by (simp add: handleLeftover_def settled_def)
  next
    assume "\<not> b \<and> st' = st"
    then show ?thesis
      using False s lines_settled[OF r, of "leftoverLines p [] (map trim (split (trim buf) ''\<newline>''))"]
      by (simp add: handleLeftover_def)
  qed
qed

lemma tryBlock_settled:
  assumes r: "running st"
  shows "settled (tryBlock js p rd st) \<and> (\<forall>st'. tryBlock js p rd st \<noteq> Continue st')"
proof (cases "readLoop js p [] newDecoder st (chunks rd)")
  case (Exited buf st1)
  with readLoop_settled[OF r, of js p "[]" newDecoder "chunks rd"]
  have r1: "running st1" by (simp add: settledLoop_def)
  show ?thesis
  proof (cases "ending rd")
    case Done
    show ?thesis
    proof (cases "handleLeftover js p buf st1")
      case (Continue st2)
      with handleLeftover_settled[OF r1, of js p buf] have "running st2"
        by (simp add: settled_def)
      from finish_settled[OF this] show ?thesis using Exited Done Continue
        by (simp add: tryBlock_def finish_def controller_close_def Let_def split: sum.splits)
    next
      case (Return st2)
      with handleLeftover_settled[OF r1, of js p buf] show ?thesis using Exited Done
        by (simp add: tryBlock_def)
    next
      case (Throw e st2)
      with handleLeftover_settled[OF r1, of js p buf] show ?thesis using Exited Done
        by (simp add: tryBlock_def)
    qed
  next
    case (Fails e)
    then show ?thesis using Exited running_quiet[OF r1] by (simp add: tryBlock_def settled_def)
  qed
next
  case (Returned st1)
  with readLoop_settled[OF r, of js p "[]" newDecoder "chunks rd"] show ?thesis
    by (simp add: tryBlock_def settledLoop_def settled_def)
next
  case (Threw e st1)
  with readLoop_settled[OF r, of js p "[]" newDecoder "chunks rd"] show ?thesis
    by (simp add: tryBlock_def settledLoop_def settled_def)
qed

lemma catch_ended: "quiet st \<Longrightarrow> ended (catch e st)"
  by (simp add: quiet_def ended_def catch_def)

lemma start_ended:
  assumes r: "running st"
  shows "ended (start js p rd st)"
  using tryBlock_settled[OF r, of js p rd]
  by (cases "tryBlock js p rd st") (simp_all add: start_def settled_def catch_ended)

lemma announce_running:
  "running \<lparr>fullResponse = [], controller = newStream, calls = announce s u\<rparr>"
  by (simp add: running_def newStream_def announce_def split: option.splits)

lemma createSSEStream_ended: "ended (createSSEStream js p s u)"
proof (cases "prepareRequest p")
  case (Inl e)
  then show ?thesis by (simp add: createSSEStream_def ended_def)
next
  case (Inr rd)
  then show ?thesis using start_ended[OF announce_running] by (simp add: createSSEStream_def)
qed

lemma ended_one_terminal: "ended st \<Longrightarrow> length (filter isTerminal (calls st)) = 1"
proof -
  assume e: "ended st"
  then have ne: "calls st \<noteq> []" by (simp add: ended_def)
  then have "calls st = butlast (calls st) @ [last (calls st)]" by simp
  then have "filter isTerminal (calls st) =
      filter isTerminal (butlast (calls st)) @ filter isTerminal [last (calls st)]"
    by (metis filter_append)
  with e show ?thesis by (auto simp: ended_def split: callback.splits)
qed

lemma ended_done_content:
  assumes e: "ended st" and c: "calls st = pre @ OnDone m # post"
  shows "content m = concat (partialContents pre) \<and> post = []"
proof -
  from e have q: "filter isTerminal (butlast (calls st)) = []" by (simp add: ended_def)
  have "post = []"
  proof (rule ccontr)
    assume "post \<noteq> []"
    then have "butlast (calls st) = pre @ OnDone m # butlast post"
      using c by (simp add: butlast_append)
    with q show False by simp
  qed
  with c have "butlast (calls st) = pre" "last (calls st) = OnDone m" by simp_all
  with e \<open>post = []\<close> show ?thesis by (simp add: ended_def)
qed

section \<open>Framing does not depend on the chunks\<close>

lemma decode_append:
  "decode d (a @ b) =
     (case decode d a of (d1, t1) \<Rightarrow> (case decode d1 b of (d2, t2) \<Rightarrow> (d2, t1 @ t2)))"
  by (induction a arbitrary: d) (simp_all split: prod.splits)

lemma splitOn_nonempty: "splitOn d ds s \<noteq> []"
  by (induction d ds s rule: splitOn.induct) (simp_all split: list.splits)

lemma splitOn_match:
  "prefix (d # ds) (c # cs) \<Longrightarrow>
     splitOn d ds (c # cs) = [] # splitOn d ds (drop (length ds) cs)"
  by simp

lemma splitOn_nomatch:
  "\<not> prefix (d # ds) (c # cs) \<Longrightarrow> splitOn d ds cs = q # qs \<Longrightarrow>
     splitOn d ds (c # cs) = (c # q) # qs"
  by simp

lemma splitOn_short: "length s < Suc (length ds) \<Longrightarrow> splitOn d ds s = [s]"
proof (induction s)
  case Nil
  then show ?case by simp
next
  case (Cons c cs)
  then have "\<not> prefix (d # ds) (c # cs)"
    by (metis length_Cons not_less prefix_length_le)
  moreover from Cons have "splitOn d ds cs = [cs]" by simp
  ultimately show ?case by (rule splitOn_nomatch)
qed

lemma splitOn_single: "splitOn d ds s = [q] \<Longrightarrow> q = s"
proof (induction d ds s arbitrary: q rule: splitOn.induct)
  case (1 d ds)
  then show ?case by simp
next
  case (2 d ds c cs)
  show ?case
  proof (cases "prefix (d # ds) (c # cs)")
    case True
    from 2(3) splitOn_nonempty[of d ds "drop (length ds) cs"] show ?thesis
      unfolding splitOn_match[OF True] by simp
  next
    case False
    obtain r rs where sp: "splitOn d ds cs = r # rs"
      using splitOn_nonempty[of d ds cs] by (cases "splitOn d ds cs") auto
    from 2(3) have "rs = []" "q = c # r"
      unfolding splitOn_nomatch[OF False sp] by simp_all
    with 2(2)[OF False, of r] sp show ?thesis by simp
  qed
qed

lemma splitOn_append:
  "splitOn d ds (s @ t) =
     butlast (splitOn d ds s) @ splitOn d ds (last (splitOn d ds s) @ t)"
proof (induction d ds s rule: splitOn.induct)
  case (1 d ds)
  then show ?case by simp
next
  case (2 d ds c cs)
  show ?case
  proof (cases "prefix (d # ds) (c # cs)")
    case True
    then have le: "length ds \<le> length cs" by (metis length_Cons prefix_length_le Suc_le_mono)
    from True have p: "prefix (d # ds) (c # (cs @ t))"
      by (metis append_Cons prefix_prefix)
    have ne: "splitOn d ds (drop (length ds) cs) \<noteq> []" by (rule splitOn_nonempty)
    have "splitOn d ds ((c # cs) @ t) = [] # splitOn d ds (drop (length ds) cs @ t)"
      using splitOn_match[OF p] le by simp
    also have "\<dots> = [] # butlast (splitOn d ds (drop (length ds) cs)) @
        splitOn d ds (last (splitOn d ds (drop (length ds) cs)) @ t)"
      using 2(1)[OF True] by simp
    also have "\<dots> = butlast (splitOn d ds (c # cs)) @
        splitOn d ds (last (splitOn d ds (c # cs)) @ t)"
      unfolding splitOn_match[OF True] using ne by simp
    finally show ?thesis .
  next
    case False
    note IH = 2(2)[OF False]
    show ?thesis
    proof (cases "prefix (d # ds) (c # (cs @ t))")
      case True
      have "length (c # cs) < Suc (length ds)"
      proof (rule ccontr)
        assume "\<not> length (c # cs) < Suc (length ds)"
        then have "length (d # ds) \<le> length (c # cs)" by simp
        with True have "prefix (d # ds) (c # cs)"
          by (metis append_Cons prefix_length_prefix prefixI)
        with False show False by simp
      qed
      from splitOn_short[OF this, of d] show ?thesis by simp
    next
      case nt: False
      obtain q qs where sp: "splitOn d ds cs = q # qs"
        using splitOn_nonempty[of d ds cs] by (cases "splitOn d ds cs") auto
      note z = splitOn_nomatch[OF False sp]
      show ?thesis
      proof (cases qs)
        case Nil
        with sp have "q = cs" using splitOn_single[of d ds cs q] by simp
        with z Nil show ?thesis by simp
      next
        case (Cons q' qs')
        have x: "splitOn d ds (cs @ t) =
            q # (butlast (q' # qs') @ splitOn d ds (last (q' # qs') @ t))"
          using IH sp Cons by simp
        have "splitOn d ds ((c # cs) @ t) =
            (c # q) # (butlast (q' # qs') @ splitOn d ds (last (q' # qs') @ t))"
          using splitOn_nomatch[OF nt x] by simp
        then show ?thesis unfolding z Cons by simp
      qed
    qed
  qed
qed

lemma split_append:
  "split s sep \<noteq> [] \<Longrightarrow>
     split (s @ t) sep = butlast (split s sep) @ split (last (split s sep) @ t) sep"
proof (cases sep)
  case Nil
  assume "split s sep \<noteq> []"
  with Nil have ne: "s \<noteq> []" by (simp add: split_def)
  then have "s = butlast s @ [last s]" by simp
  then have "map (\<lambda>c. [c]) (s @ t) = map (\<lambda>c. [c]) (butlast s) @ map (\<lambda>c. [c]) (last s # t)"
    by (metis append_Cons append_Nil append_assoc map_append)
  with Nil ne show ?thesis by (simp add: split_def map_butlast last_map)
next
  case (Cons d ds)
  then show ?thesis using splitOn_append[of d ds s t] by (simp add: split_def)
qed

lemma framing_append:
  "framing sep (s @ t) =
     (case framing sep s of (e1, b1) \<Rightarrow>
        (case framing sep (b1 @ t) of (e2, b2) \<Rightarrow> (e1 @ e2, b2)))"
proof (cases "split s sep = []")
  case True
  then have "s = []" by (cases sep) (simp_all add: split_def splitOn_nonempty)
  with True show ?thesis by (simp add: framing_def pop_def)
next
  case False
  note sa = split_append[OF False, of t]
  show ?thesis
  proof (cases "split (last (split s sep) @ t) sep = []")
    case True
    then have "last (split s sep) @ t = []" by (cases sep) (simp_all add: split_def splitOn_nonempty)
    moreover have "sep = []" using True by (cases sep) (simp_all add: split_def splitOn_nonempty)
    ultimately show ?thesis using False by (simp add: split_def last_map)
  next
    case ne: False
    with sa False show ?thesis
      by (simp add: framing_def pop_def butlast_append)
  qed
qed

lemma processEvents_append:
  "processEvents js p st (e1 @ e2) =
     (case processEvents js p st e1 of
        Continue st' \<Rightarrow> processEvents js p st' e2
      | Return st' \<Rightarrow> Return st'
      | Throw e st' \<Rightarrow> Throw e st')"
  by (induction e1 arbitrary: st) (simp_all split: outcome.splits)

lemma readLoop_framing:
  "readLoop js p buffer dec st (v # rest) =
     (case decode dec v of (dec', chunk) \<Rightarrow>
        (case framing (delimiterOf p) (buffer @ chunk) of (events, b) \<Rightarrow>
           (case processEvents js p st events of
              Continue st' \<Rightarrow> readLoop js p b dec' st' rest
            | Return st' \<Rightarrow> Returned st'
            | Throw e st' \<Rightarrow> Threw e st')))"
  by (simp add: framing_def split: prod.splits)

lemma readLoop_merge:
  "readLoop js p buffer dec st (v # w # rest) = readLoop js p buffer dec st ((v @ w) # rest)"
proof -
  obtain d1 t1 where a: "decode dec v = (d1, t1)" by (cases "decode dec v")
  obtain d2 t2 where b: "decode d1 w = (d2, t2)" by (cases "decode d1 w")
  obtain e1 b1 where f1: "framing (delimiterOf p) (buffer @ t1) = (e1, b1)"
    by (cases "framing (delimiterOf p) (buffer @ t1)")
  obtain e2 b2 where f2: "framing (delimiterOf p) (b1 @ t2) = (e2, b2)"
    by (cases "framing (delimiterOf p) (b1 @ t2)")
  have ab: "decode dec (v @ w) = (d2, t1 @ t2)" by (simp add: decode_append a b)
  have f: "framing (delimiterOf p) (buffer @ t1 @ t2) = (e1 @ e2, b2)"
    using framing_append[of "delimiterOf p" "buffer @ t1" t2] f1 f2 by simp
  have l: "readLoop js p buffer dec st (v # w # rest) =
      (case processEvents js p st e1 of
         Continue st' \<Rightarrow> readLoop js p b1 d1 st' (w # rest)
       | Return st' \<Rightarrow> Returned st'
       | Throw e st' \<Rightarrow> Threw e st')"
    by (simp only: readLoop_framing[of js p buffer dec st v] a f1 prod.case)
  have m: "\<And>st'. readLoop js p b1 d1 st' (w # rest) =
      (case processEvents js p st' e2 of
         Continue st'' \<Rightarrow> readLoop js p b2 d2 st'' rest
       | Return st'' \<Rightarrow> Returned st''
       | Throw e st'' \<Rightarrow> Threw e st'')"
    by (simp only: readLoop_framing[of js p b1 d1 _ w] b f2 prod.case)
  have r: "readLoop js p buffer dec st ((v @ w) # rest) =
      (case processEvents js p st (e1 @ e2) of
         Continue st' \<Rightarrow> readLoop js p b2 d2 st' rest
       | Return st' \<Rightarrow> Returned st'
       | Throw e st' \<Rightarrow> Threw e st')"
    using f by (simp only: readLoop_framing[of js p buffer dec st "v @ w"] ab append_assoc prod.case)
  show ?thesis
    unfolding l r processEvents_append
    by (cases "processEvents js p st e1") (simp_all only: outcome.case m)
qed

lemma readLoop_empty_chunk:
  "readLoop js p [] dec st [[]] = readLoop js p [] dec st []"
  by (cases "delimiterOf p") (simp_all add: split_def pop_def)

lemma readLoop_concat:
  "readLoop js p buffer dec st (v # vs) = readLoop js p buffer dec st [concat (v # vs)]"
proof (induction vs arbitrary: v)
  case Nil
  then show ?case by simp
next
  case (Cons w vs)
  have "readLoop js p buffer dec st (v # w # vs) = readLoop js p buffer dec st ((v @ w) # vs)"
    by (rule readLoop_merge)
  also have "\<dots> = readLoop js p buffer dec st [concat ((v @ w) # vs)]" by (rule Cons.IH)
  finally show ?case by simp
qed

lemma readLoop_one_chunk:
  "readLoop js p [] dec st vs = readLoop js p [] dec st [concat vs]"
proof (cases vs)
  case Nil
  then show ?thesis using readLoop_empty_chunk[of js p dec st] by simp
next
  case (Cons v ws)
  then show ?thesis using readLoop_concat[of js p "[]" dec st v ws] by simp
qed

lemma parseLines_cong:
  "parseServerSentEvent p' = parseServerSentEvent p \<Longrightarrow>
     parseLines p' acc ls = parseLines p acc ls"
  by (induction ls arbitrary: acc) (simp_all split: sum.splits)

lemma leftoverLines_cong:
  "parseServerSentEvent p' = parseServerSentEvent p \<Longrightarrow>
     leftoverLines p' acc ls = leftoverLines p acc ls"
  by (induction ls arbitrary: acc) (simp_all split: sum.splits)

lemma processEvent_cong:
  assumes "parseServerSentEvent p' = parseServerSentEvent p"
  shows "processEvent js p' st ev = processEvent js p st ev"
  unfolding processEvent_def parseLines_cong[OF assms] by (rule refl)

lemma processEvents_cong:
  assumes "parseServerSentEvent p' = parseServerSentEvent p"
  shows "processEvents js p' st evs = processEvents js p st evs"
proof (induction evs arbitrary: st)
  case Nil
  show ?case by simp
next
  case (Cons ev evs)
  show ?case unfolding processEvents.simps processEvent_cong[OF assms] Cons.IH by (rule refl)
qed

lemma readLoop_cong:
  assumes "parseServerSentEvent p' = parseServerSentEvent p" and "delimiter p' = delimiter p"
  shows "readLoop js p' buf dec st vs = readLoop js p buf dec st vs"
proof (induction vs arbitrary: buf dec st)
  case Nil
  show ?case by simp
next
  case (Cons v vs)
  have d: "delimiterOf p' = delimiterOf p" using assms(2) by (simp add: delimiterOf_def)
  show ?case
    unfolding readLoop.simps processEvents_cong[OF assms(1)] Cons.IH d by (rule refl)
qed

lemma handleLeftover_cong:
  assumes "parseServerSentEvent p' = parseServerSentEvent p"
  shows "handleLeftover js p' buf st = handleLeftover js p buf st"
  unfolding handleLeftover_def leftoverLines_cong[OF assms] by (rule refl)

lemma start_cong:
  assumes "parseServerSentEvent p' = parseServerSentEvent p" and "delimiter p' = delimiter p"
  shows "start js p' rd st = start js p rd st"
  unfolding start_def tryBlock_def readLoop_cong[OF assms] handleLeftover_cong[OF assms(1)]
  by (rule refl)

lemma start_one_chunk:
  "start js p \<lparr>chunks = vs, ending = fin\<rparr> st =
   start js p \<lparr>chunks = [concat vs], ending = fin\<rparr> st"
  unfolding start_def tryBlock_def reader.select_convs
    readLoop_one_chunk[of js p newDecoder st vs]
  by (rule refl)

section \<open>The debug gate: claim C9\<close>



section \<open>Terminal callbacks: claims C4 and C1\<close>

text \<open>
  As long as nothing but the engine touches the outbound stream, every call, in either
  revision, for every plugin (its preparation failing or not, its parser returning text,
  nothing, the sentinel or throwing), every sequence of chunks and either ending of the
  reader, dispatches exactly one terminal callback, and it is the last callback
  dispatched.
\<close>

lemma one_terminal_undisturbed:
  "length (filter isTerminal (calls (createSSEStream js p systemMessage userMessage))) = 1 \<and>
   isTerminal (last (calls (createSSEStream js p systemMessage userMessage)))"
proof -
  have e: "ended (createSSEStream js p systemMessage userMessage)"
    by (rule createSSEStream_ended)
  from e have "isTerminal (last (calls (createSSEStream js p systemMessage userMessage)))"
    by (simp add: ended_def split: callback.splits)
  with ended_one_terminal[OF e] show ?thesis by simp
qed

text \<open>
  C4. Not every instance dispatches exactly one terminal callback. When the consumer has
  cancelled the outbound stream, \<^verbatim>\<open>onDone\<close> is dispatched first (lines 113 to 118 at the
  sentinel, lines 191 to 196 at the end of the input) and the \<^verbatim>\<open>controller.close()\<close>
  after it throws, so that the \<^verbatim>\<open>catch\<close> of line 201 dispatches \<^verbatim>\<open>onError\<close> as well:
  two terminal callbacks, with the plugin of the test suite, both for a stream that holds
  the sentinel frame and for a stream that ends at once.
\<close>

theorem cancelled_stream_dispatches_both:
  "calls (createSSEStream_cancelled None (mockPlugin [''data: [DONE]\<newline>\<newline>''])
            None ''Test user message'') =
     [OnUserMessage \<lparr>role = User, content = ''Test user message''\<rparr>,
      OnDone \<lparr>role = Assistant, content = []\<rparr>,
      OnError (Error ''TypeError: Invalid state: Controller is already closed'')
        \<lparr>role = Assistant, content = []\<rparr>] \<and>
   calls (createSSEStream_cancelled None (mockPlugin []) None ''Test user message'') =
     [OnUserMessage \<lparr>role = User, content = ''Test user message''\<rparr>,
      OnDone \<lparr>role = Assistant, content = []\<rparr>,
      OnError (Error ''TypeError: Invalid state: Controller is already closed'')
        \<lparr>role = Assistant, content = []\<rparr>] \<and>
   length (filter isTerminal
     (calls (createSSEStream_cancelled None (mockPlugin [''data: [DONE]\<newline>\<newline>''])
               None ''Test user message''))) = 2"
  by code_simp

text \<open>
  C1. Whenever a run dispatches \<^verbatim>\<open>onDone\<close>, in particular when the frames end in a line
  that the parser maps to the sentinel, its content is the concatenation, in order, of
  the contents of the \<^verbatim>\<open>onPartial\<close> calls dispatched before it.
\<close>

theorem onDone_is_concatenation:
  assumes "calls (createSSEStream js p systemMessage userMessage) = before @ OnDone m # after"
  shows "content m = concat (partialContents before)"
  using ended_done_content[OF createSSEStream_ended assms] by simp

theorem onDone_is_concatenation_witness:
  "calls (createSSEStream None
      (mockPlugin [''data: \"Hello\"\<newline>\<newline>'', ''data: \" world!\"\<newline>\<newline>'',
                   ''data: [DONE]\<newline>\<newline>''])
      None ''Test message'') =
     [OnUserMessage \<lparr>role = User, content = ''Test message''\<rparr>,
      OnPartial \<lparr>role = Assistant, content = ''Hello''\<rparr>,
      OnPartial \<lparr>role = Assistant, content = '' world!''\<rparr>]
     @ OnDone \<lparr>role = Assistant, content = ''Hello world!''\<rparr> # [] \<and>
   content \<lparr>role = Assistant, content = ''Hello world!''\<rparr> =
     concat (partialContents
       [OnUserMessage \<lparr>role = User, content = ''Test message''\<rparr>,
        OnPartial \<lparr>role = Assistant, content = ''Hello''\<rparr>,
        OnPartial \<lparr>role = Assistant, content = '' world!''\<rparr>])"
proof -
  have run: "calls (createSSEStream None
      (mockPlugin [''data: \"Hello\"\<newline>\<newline>'', ''data: \" world!\"\<newline>\<newline>'',
                   ''data: [DONE]\<newline>\<newline>''])
      None ''Test message'') =
     [OnUserMessage \<lparr>role = User, content = ''Test message''\<rparr>,
      OnPartial \<lparr>role = Assistant, content = ''Hello''\<rparr>,
      OnPartial \<lparr>role = Assistant, content = '' world!''\<rparr>]
     @ OnDone \<lparr>role = Assistant, content = ''Hello world!''\<rparr> # []"
    by code_simp
  from run onDone_is_concatenation[OF run] show ?thesis by (rule conjI)
qed

section \<open>Chunk boundaries: claim C3\<close>

text \<open>
  An example: the stream of \<^verbatim>\<open>data: "caf\<close>, a two-byte letter and the sentinel, cut
  inside the letter, inside the delimiter and inside the sentinel's line.
\<close>

lemma chunked_example:
  "calls (createSSEStream None
     ((mockPlugin [])\<lparr>prepareRequest :=
        Inr \<lparr>chunks = [''data: \"caf'' @ [CHR 0xC3], [CHR 0xA9] @ ''\"\<newline>'',
                        ''\<newline>data: [DO'', ''NE]\<newline>\<newline>''],
             ending = Done\<rparr>\<rparr>)
     None ''Test message'') =
   [OnUserMessage \<lparr>role = User, content = ''Test message''\<rparr>,
    OnPartial \<lparr>role = Assistant, content = ''caf'' @ [CHR 0xC3, CHR 0xA9]\<rparr>,
    OnDone \<lparr>role = Assistant, content = ''caf'' @ [CHR 0xC3, CHR 0xA9]\<rparr>]"
  by code_simp

text \<open>
  C3. A run over the chunks \<open>vs\<close> and the run over their concatenation delivered as one
  chunk give the same callbacks with the same contents and the same outbound stream,
  wherever the boundaries fall: inside a multi-byte character (the decoder keeps the
  unfinished sequence), inside the delimiter or inside a line (the buffer keeps the
  unfinished frame).
\<close>

theorem chunk_boundaries_do_not_matter:
  "createSSEStream js (p\<lparr>prepareRequest := Inr \<lparr>chunks = vs, ending = fin\<rparr>\<rparr>)
       systemMessage userMessage =
   createSSEStream js (p\<lparr>prepareRequest := Inr \<lparr>chunks = [concat vs], ending = fin\<rparr>\<rparr>)
       systemMessage userMessage"
  by (simp add: createSSEStream_def start_one_chunk[of js _ vs]
      start_cong[of "p\<lparr>prepareRequest := x\<rparr>" p for x] del: readLoop.simps)

theorem chunk_boundaries_do_not_matter_witness:
  "createSSEStream None
     ((mockPlugin [])\<lparr>prepareRequest :=
        Inr \<lparr>chunks = [''data: \"caf'' @ [CHR 0xC3], [CHR 0xA9] @ ''\"\<newline>'',
                        ''\<newline>data: [DO'', ''NE]\<newline>\<newline>''],
             ending = Done\<rparr>\<rparr>)
     None ''Test message'' =
   createSSEStream None
     ((mockPlugin [])\<lparr>prepareRequest :=
        Inr \<lparr>chunks = [concat [''data: \"caf'' @ [CHR 0xC3], [CHR 0xA9] @ ''\"\<newline>'',
                                ''\<newline>data: [DO'', ''NE]\<newline>\<newline>'']],
             ending = Done\<rparr>\<rparr>)
     None ''Test message''"
  by (rule chunk_boundaries_do_not_matter)

section \<open>Failure of the preparation: claim C6\<close>

text \<open>
  C6. When \<^verbatim>\<open>prepareRequest\<close> throws or rejects with \<open>e\<close>, the call dispatches
  \<^verbatim>\<open>onError\<close> with \<open>e\<close> and an assistant message of empty content, and nothing else (no
  \<^verbatim>\<open>onPartial\<close>, no \<^verbatim>\<open>onDone\<close>); it returns a stream that is closed, not errored, and
  empty, whose first read reports the end of the input.
\<close>

theorem prepare_failure:
  assumes "prepareRequest p = Inl e"
  shows "calls (createSSEStream js p systemMessage userMessage) =
           [OnError e \<lparr>role = Assistant, content = []\<rparr>] \<and>
         controller (createSSEStream js p systemMessage userMessage) =
           \<lparr>queue = [], streamState = Closed\<rparr> \<and>
         read (controller (createSSEStream js p systemMessage userMessage)) = EndOfInput"
  using assms
  by (simp add: createSSEStream_def closedStream_def controller_close_def newStream_def read_def)

theorem prepare_failure_witness:
  "prepareRequest errorPlugin = Inl (Error ''Simulated stream error'') \<and>
   calls (createSSEStream None errorPlugin None ''Test user message'') =
     [OnError (Error ''Simulated stream error'') \<lparr>role = Assistant, content = []\<rparr>] \<and>
   controller (createSSEStream None errorPlugin None ''Test user message'') =
     \<lparr>queue = [], streamState = Closed\<rparr> \<and>
   read (controller (createSSEStream None errorPlugin None ''Test user message'')) = EndOfInput"
proof -
  have h: "prepareRequest errorPlugin = Inl (Error ''Simulated stream error'')"
    by (simp add: errorPlugin_def)
  from h prepare_failure[OF h] show ?thesis by (rule conjI)
qed

section \<open>The buffer between reads: claim C8\<close>






text \<open>
  The loop over \<open>vs @ ws\<close> reaches its await after \<open>vs\<close> in the state in which the loop
  over \<open>vs\<close> alone is left.
\<close>

lemma readLoop_append:
  "readLoop js p buffer dec st (vs @ ws) =
     (case readLoop js p buffer dec st vs of
        Exited b st' \<Rightarrow> readLoop js p b (fst (decode dec (concat vs))) st' ws
      | Returned st' \<Rightarrow> Returned st'
      | Threw e st' \<Rightarrow> Threw e st')"
proof (induction vs arbitrary: buffer dec st)
  case Nil
  show ?case by simp
next
  case (Cons v vs)
  obtain d1 t1 where a: "decode dec v = (d1, t1)" by (cases "decode dec v")
  obtain e1 b1 where f1: "framing (delimiterOf p) (buffer @ t1) = (e1, b1)"
    by (cases "framing (delimiterOf p) (buffer @ t1)")
  have dd: "fst (decode dec (concat (v # vs))) = fst (decode d1 (concat vs))"
    by (simp add: decode_append a split: prod.splits)
  show ?case
    unfolding append_Cons readLoop_framing a f1 prod.case dd
    by (cases "processEvents js p st e1") (simp_all only: outcome.case Cons.IH loop.case)
qed



section \<open>The sentinel: claims C5 and C10\<close>

lemma parseLines_sentinel:
  assumes "\<forall>x\<in>set before. \<exists>r. parseServerSentEvent p x = Inr r"
      and "parseServerSentEvent p l = Inr (Some ''[DONE]'')"
  shows "parseLines p acc (before @ l # after) = Sentinel"
  using assms
proof (induction before arbitrary: acc)
  case Nil
  then show ?case by simp
next
  case (Cons x xs)
  then obtain r where "parseServerSentEvent p x = Inr r" by auto
  with Cons show ?case by simp
qed

lemma leftoverLines_filter:
  "leftoverLines p acc ls = parseLines p acc (filter (\<lambda>ln. \<not> startsWith ln '':'') ls)"
  by (induction ls arbitrary: acc) (simp_all split: sum.splits)

lemma trim_Nil: "trim [] = []"
  by (simp add: trim_def trimStart_def trimEnd_def)

lemma sseLines_Nil: "sseLines [] = []"
  by (simp add: sseLines_def split_def trim_Nil)

lemma finish_readable:
  "streamState (controller st) = Readable \<Longrightarrow>
     finish st = Return (st\<lparr>calls := calls st @ [OnDone \<lparr>role = Assistant, content = fullResponse st\<rparr>],
                          controller := (controller st)\<lparr>streamState := Closed\<rparr>\<rparr>)"
  by (simp add: finish_def controller_close_def Let_def)

text \<open>
  C5. Take a frame that the sniffer, where the revision has one, lets pass, and in which
  a line parses to the sentinel, no line before it making the parser throw. From a state
  with a readable outbound stream the engine dispatches \<^verbatim>\<open>onDone\<close> with the aggregate
  as it stands, closes the outbound stream and returns, leaving the frames after it
  unprocessed. The aggregate and the outbound queue are unchanged and no \<^verbatim>\<open>onPartial\<close>
  is dispatched: the text of the earlier lines of the frame is discarded.
\<close>

theorem sentinel_discards_frame_text:
  assumes "sseLines (trim event) = before @ l # after"
      and "\<forall>x\<in>set before. \<exists>r. parseServerSentEvent p x = Inr r"
      and "parseServerSentEvent p l = Inr (Some ''[DONE]'')"
      and "sniff js (trim event) st = (False, st)"
      and "streamState (controller st) = Readable"
  shows "processEvents js p st (event # rest) =
           Return (st\<lparr>calls := calls st @ [OnDone \<lparr>role = Assistant, content = fullResponse st\<rparr>],
                      controller := (controller st)\<lparr>streamState := Closed\<rparr>\<rparr>)"
proof -
  from assms(1) have ne: "trim event \<noteq> []" using sseLines_Nil by auto
  have s: "parseLines p [] (sseLines (trim event)) = Sentinel"
    unfolding assms(1) by (rule parseLines_sentinel[OF assms(2,3)])
  have "processEvent js p st event = finish st"
    using ne s assms(4) by (simp add: processEvent_def)
  then show ?thesis using finish_readable[OF assms(5)] by simp
qed

theorem sentinel_discards_frame_text_witness:
  "sseLines (trim ''data: \"lost\"\<newline>data: [DONE]'') =
     [''data: \"lost\"''] @ ''data: [DONE]'' # [] \<and>
   parseServerSentEvent (mockPlugin []) ''data: \"lost\"'' = Inr (Some ''lost'') \<and>
   parseServerSentEvent (mockPlugin []) ''data: [DONE]'' = Inr (Some ''[DONE]'') \<and>
   processEvents None (mockPlugin [])
     \<lparr>fullResponse = ''Hello'',
      controller = \<lparr>queue = [''Hello''], streamState = Readable\<rparr>,
      calls = [OnPartial \<lparr>role = Assistant, content = ''Hello''\<rparr>]\<rparr>
     [''data: \"lost\"\<newline>data: [DONE]'', ''data: \" world!\"''] =
     Return \<lparr>fullResponse = ''Hello'',
             controller = \<lparr>queue = [''Hello''], streamState = Closed\<rparr>,
             calls = [OnPartial \<lparr>role = Assistant, content = ''Hello''\<rparr>,
                      OnDone \<lparr>role = Assistant, content = ''Hello''\<rparr>]\<rparr>"
proof -
  let ?st = "\<lparr>fullResponse = ''Hello'',
      controller = \<lparr>queue = [''Hello''], streamState = Readable\<rparr>,
      calls = [OnPartial \<lparr>role = Assistant, content = ''Hello''\<rparr>]\<rparr>"
  have h1: "sseLines (trim ''data: \"lost\"\<newline>data: [DONE]'') =
     [''data: \"lost\"''] @ ''data: [DONE]'' # []"
    by code_simp
  have h2: "parseServerSentEvent (mockPlugin []) ''data: \"lost\"'' = Inr (Some ''lost'')"
    by code_simp
  then have h2': "\<forall>x\<in>set [''data: \"lost\"'']. \<exists>r. parseServerSentEvent (mockPlugin []) x = Inr r"
    by simp
  have h3: "parseServerSentEvent (mockPlugin []) ''data: [DONE]'' = Inr (Some ''[DONE]'')"
    by code_simp
  have h4: "sniff None (trim ''data: \"lost\"\<newline>data: [DONE]'') ?st = (False, ?st)"
    by (simp add: sniff_def)
  have h5: "streamState (controller ?st) = Readable" by simp
  have c: "processEvents None (mockPlugin []) ?st
     [''data: \"lost\"\<newline>data: [DONE]'', ''data: \" world!\"''] =
     Return \<lparr>fullResponse = ''Hello'',
             controller = \<lparr>queue = [''Hello''], streamState = Closed\<rparr>,
             calls = [OnPartial \<lparr>role = Assistant, content = ''Hello''\<rparr>,
                      OnDone \<lparr>role = Assistant, content = ''Hello''\<rparr>]\<rparr>"
    using sentinel_discards_frame_text[OF h1 h2' h3 h4 h5, of "[''data: \" world!\"'']"]
    by simp
  show ?thesis by (rule conjI[OF h1 conjI[OF h2 conjI[OF h3 c]]])
qed

text \<open>
  C10. The sentinel is the string \<^verbatim>\<open>"[DONE]"\<close> itself, a value of the parser's result
  type like any content. On both paths, the frame of the read loop and the leftover after
  it, a line for which the parser returns this string (no earlier line of the text
  throwing, and the sniffer letting the text pass) makes the engine dispatch \<^verbatim>\<open>onDone\<close>
  and close the stream; the string is not emitted, and neither is the text of the lines
  before it.
\<close>

theorem done_string_finalizes:
  assumes "parseServerSentEvent p l = Inr (Some ''[DONE]'')"
      and "\<forall>x\<in>set before. \<exists>r. parseServerSentEvent p x = Inr r"
      and "sniff js (trim text) st = (False, st)"
      and "streamState (controller st) = Readable"
  shows "(sseLines (trim text) = before @ l # after \<longrightarrow>
            processEvent js p st text =
              Return (st\<lparr>calls := calls st @ [OnDone \<lparr>role = Assistant, content = fullResponse st\<rparr>],
                         controller := (controller st)\<lparr>streamState := Closed\<rparr>\<rparr>)) \<and>
         (trim text \<noteq> [] \<and>
          filter (\<lambda>ln. \<not> startsWith ln '':'') (map trim (split (trim text) ''\<newline>'')) =
            before @ l # after \<longrightarrow>
            handleLeftover js p text st =
              Return (st\<lparr>calls := calls st @ [OnDone \<lparr>role = Assistant, content = fullResponse st\<rparr>],
                         controller := (controller st)\<lparr>streamState := Closed\<rparr>\<rparr>))"
proof (intro conjI impI)
  assume a: "sseLines (trim text) = before @ l # after"
  then have ne: "trim text \<noteq> []" using sseLines_Nil by auto
  have "parseLines p [] (sseLines (trim text)) = Sentinel"
    unfolding a by (rule parseLines_sentinel[OF assms(2,1)])
  then have "processEvent js p st text = finish st"
    using ne assms(3) by (simp add: processEvent_def)
  then show "processEvent js p st text =
      Return (st\<lparr>calls := calls st @ [OnDone \<lparr>role = Assistant, content = fullResponse st\<rparr>],
                 controller := (controller st)\<lparr>streamState := Closed\<rparr>\<rparr>)"
    using finish_readable[OF assms(4)] by simp
next
  let ?ls = "map trim (split (trim text) ''\<newline>'')"
  assume a: "trim text \<noteq> [] \<and> filter (\<lambda>ln. \<not> startsWith ln '':'') ?ls = before @ l # after"
  then have "leftoverLines p [] ?ls = Sentinel"
    using parseLines_sentinel[OF assms(2,1), of "[]" after] by (simp add: leftoverLines_filter)
  then have "handleLeftover js p text st = finish st"
    using a assms(3) by (simp add: handleLeftover_def)
  then show "handleLeftover js p text st =
      Return (st\<lparr>calls := calls st @ [OnDone \<lparr>role = Assistant, content = fullResponse st\<rparr>],
                 controller := (controller st)\<lparr>streamState := Closed\<rparr>\<rparr>)"
    using finish_readable[OF assms(4)] by simp
qed

theorem done_string_finalizes_witness:
  "parseServerSentEvent (mockPlugin []) ''data: [DONE]'' = Inr (Some ''[DONE]'') \<and>
   parseServerSentEvent (mockPlugin []) ''data: \"lost\"'' = Inr (Some ''lost'') \<and>
   sseLines (trim '': note\<newline>data: \"lost\"\<newline>data: [DONE]'') =
     [''data: \"lost\"''] @ ''data: [DONE]'' # [] \<and>
   processEvent None (mockPlugin [])
     \<lparr>fullResponse = ''Hello'',
      controller = \<lparr>queue = [''Hello''], streamState = Readable\<rparr>,
      calls = [OnPartial \<lparr>role = Assistant, content = ''Hello''\<rparr>]\<rparr>
     '': note\<newline>data: \"lost\"\<newline>data: [DONE]'' =
     Return \<lparr>fullResponse = ''Hello'',
             controller = \<lparr>queue = [''Hello''], streamState = Closed\<rparr>,
             calls = [OnPartial \<lparr>role = Assistant, content = ''Hello''\<rparr>,
                      OnDone \<lparr>role = Assistant, content = ''Hello''\<rparr>]\<rparr> \<and>
   handleLeftover None (mockPlugin []) '': note\<newline>data: \"lost\"\<newline>data: [DONE]''
     \<lparr>fullResponse = ''Hello'',
      controller = \<lparr>queue = [''Hello''], streamState = Readable\<rparr>,
      calls = [OnPartial \<lparr>role = Assistant, content = ''Hello''\<rparr>]\<rparr> =
     Return \<lparr>fullResponse = ''Hello'',
             controller = \<lparr>queue = [''Hello''], streamState = Closed\<rparr>,
             calls = [OnPartial \<lparr>role = Assistant, content = ''Hello''\<rparr>,
                      OnDone \<lparr>role = Assistant, content = ''Hello''\<rparr>]\<rparr>"
proof -
  let ?st = "\<lparr>fullResponse = ''Hello'',
      controller = \<lparr>queue = [''Hello''], streamState = Readable\<rparr>,
      calls = [OnPartial \<lparr>role = Assistant, content = ''Hello''\<rparr>]\<rparr>"
  let ?text = "'': note\<newline>data: \"lost\"\<newline>data: [DONE]''"
  have h1: "parseServerSentEvent (mockPlugin []) ''data: [DONE]'' = Inr (Some ''[DONE]'')"
    by code_simp
  have h2: "parseServerSentEvent (mockPlugin []) ''data: \"lost\"'' = Inr (Some ''lost'')"
    by code_simp
  then have h2': "\<forall>x\<in>set [''data: \"lost\"'']. \<exists>r. parseServerSentEvent (mockPlugin []) x = Inr r"
    by simp
  have h3: "sniff None (trim ?text) ?st = (False, ?st)"
    by (simp add: sniff_def)
  have h4: "streamState (controller ?st) = Readable" by simp
  have a: "sseLines (trim ?text) = [''data: \"lost\"''] @ ''data: [DONE]'' # []"
    by code_simp
  have b: "trim ?text \<noteq> [] \<and>
      filter (\<lambda>ln. \<not> startsWith ln '':'') (map trim (split (trim ?text) ''\<newline>'')) =
        [''data: \"lost\"''] @ ''data: [DONE]'' # []"
    by code_simp
  note t = done_string_finalizes[OF h1 h2' h3 h4, of "[]"]
  have c1: "processEvent None (mockPlugin []) ?st ?text =
     Return \<lparr>fullResponse = ''Hello'',
             controller = \<lparr>queue = [''Hello''], streamState = Closed\<rparr>,
             calls = [OnPartial \<lparr>role = Assistant, content = ''Hello''\<rparr>,
                      OnDone \<lparr>role = Assistant, content = ''Hello''\<rparr>]\<rparr>"
    using t[THEN conjunct1, rule_format, OF a] by simp
  have c2: "handleLeftover None (mockPlugin []) ?text ?st =
     Return \<lparr>fullResponse = ''Hello'',
             controller = \<lparr>queue = [''Hello''], streamState = Closed\<rparr>,
             calls = [OnPartial \<lparr>role = Assistant, content = ''Hello''\<rparr>,
                      OnDone \<lparr>role = Assistant, content = ''Hello''\<rparr>]\<rparr>"
    using t[THEN conjunct2, rule_format, OF b] by simp
  show ?thesis by (rule conjI[OF h1 conjI[OF h2 conjI[OF a conjI[OF c1 c2]]]])
qed

section \<open>The leftover against the frames: claim C7\<close>

text \<open>
  The leftover loop is the frame loop over the lines that are not comments: empty lines
  stay in.
\<close>

lemma leftover_agrees_without_blank_lines:
  assumes "[] \<notin> set (map trim (split (trim text) ''\<newline>''))"
  shows "handleLeftover js p text st = processEvent js p st text"
proof -
  let ?ls = "map trim (split (trim text) ''\<newline>'')"
  have ne: "\<And>ln. ln \<in> set ?ls \<Longrightarrow> ln \<noteq> []" using assms by metis
  have "filter (\<lambda>ln. \<not> startsWith ln '':'') ?ls = sseLines (trim text)"
    unfolding sseLines_def Let_def by (rule filter_cong) (simp_all add: ne)
  then have l: "leftoverLines p [] ?ls = parseLines p [] (sseLines (trim text))"
    by (simp add: leftoverLines_filter)
  show ?thesis
    unfolding handleLeftover_def processEvent_def Let_def l
    by (cases "trim text = []") simp_all
qed

text \<open>
  C7. The two paths differ, on the same text from the same state, as soon as a line of
  the text is blank and the parser returns text for the empty line: the frame path drops
  the blank line (line 107), the leftover path (lines 155 to 157) hands it to the parser.
  With the plugin that gives every line its line break back and the text of the lines
  \<^verbatim>\<open>a\<close>, a blank, \<^verbatim>\<open>b\<close>, the frame emits two lines and the leftover three.
\<close>

theorem leftover_parses_blank_lines:
  "processEvent None (echoPlugin [])
     \<lparr>fullResponse = [], controller = newStream, calls = []\<rparr> ''a\<newline> \<newline>b'' =
     Continue \<lparr>fullResponse = ''a\<newline>b\<newline>'',
               controller = \<lparr>queue = [''a\<newline>b\<newline>''], streamState = Readable\<rparr>,
               calls = [OnPartial \<lparr>role = Assistant, content = ''a\<newline>b\<newline>''\<rparr>]\<rparr> \<and>
   handleLeftover None (echoPlugin []) ''a\<newline> \<newline>b''
     \<lparr>fullResponse = [], controller = newStream, calls = []\<rparr> =
     Continue \<lparr>fullResponse = ''a\<newline>\<newline>b\<newline>'',
               controller = \<lparr>queue = [''a\<newline>\<newline>b\<newline>''], streamState = Readable\<rparr>,
               calls = [OnPartial \<lparr>role = Assistant, content = ''a\<newline>\<newline>b\<newline>''\<rparr>]\<rparr>"
  by code_simp

section \<open>The error payload: claim C2\<close>

text \<open>
  What the revision with the sniffer does on a frame holding an error payload with the
  message \<open>m\<close>: one \<^verbatim>\<open>onError\<close> with the message, the outbound stream errored, the
  frames after it unprocessed. The message passed along has the empty content.
\<close>

lemma payload_error_stops:
  assumes "trim event \<noteq> []"
      and "startsWith (stripDataPrefix (trim (trim event))) ''{''"
      and "json (stripDataPrefix (trim (trim event))) = Some m"
      and "streamState (controller st) = Readable"
  shows "processEvents (Some json) p st (event # rest) =
           Return (st\<lparr>calls := calls st @
                        [OnError (Error m) \<lparr>role = Assistant, content = []\<rparr>],
                      controller := \<lparr>queue = [], streamState = Errored (Error m)\<rparr>\<rparr>)"
  using assms
  by (simp add: processEvent_def sniff_def handlePossibleErrorJSON_def controller_error_def
      Let_def)

text \<open>
  C2. In a run of the revision with the sniffer in which \<^verbatim>\<open>Hello\<close> has been emitted and
  the next frame is the error payload with the message \<^verbatim>\<open>X\<close>, the engine dispatches one
  \<^verbatim>\<open>onError\<close> with that message, errors the outbound stream and processes no further
  frame; the content it passes to \<^verbatim>\<open>onError\<close> is empty, not the aggregate \<^verbatim>\<open>Hello\<close>.
\<close>

theorem payload_error_drops_aggregate:
  "createSSEStream (Some errorMessageOf)
     (mockPlugin [''data: \"Hello\"\<newline>\<newline>'', ''{\"error\":{\"message\":\"X\"}}\<newline>\<newline>'',
                  ''data: \" world!\"\<newline>\<newline>''])
     None ''Test message'' =
   \<lparr>fullResponse = ''Hello'',
    controller = \<lparr>queue = [], streamState = Errored (Error ''X'')\<rparr>,
    calls = [OnUserMessage \<lparr>role = User, content = ''Test message''\<rparr>,
             OnPartial \<lparr>role = Assistant, content = ''Hello''\<rparr>,
             OnError (Error ''X'') \<lparr>role = Assistant, content = []\<rparr>]\<rparr>"
  by code_simp

end
